theory Spec2Isabelle
  imports Complex_Main
begin

section \<open>Data model of the LUIS authoring client (luis.ts)\<close>

text \<open>
  \<^verbatim>\<open>export enum TrainingStatus { Success = 0, Fail = 1, UpToDate = 2, InProgress = 3, Queued = 9}\<close>
  The enum is a datatype; \<open>TrainingStatus_value\<close> gives the number each member stands for
  on the wire, which is what the source compares with \<^verbatim>\<open>===\<close>.
\<close>

datatype TrainingStatus = Success | Fail | UpToDate | InProgress | Queued

fun TrainingStatus_value :: "TrainingStatus \<Rightarrow> int" where
  "TrainingStatus_value Success = 0"
| "TrainingStatus_value Fail = 1"
| "TrainingStatus_value UpToDate = 2"
| "TrainingStatus_value InProgress = 3"
| "TrainingStatus_value Queued = 9"

text \<open>
  A rejected request (a non-2xx answer or a network failure) rejects the awaited promise;
  the client has no handler of its own, so the rejection leaves the running method. The
  reason is opaque to the client.
\<close>

datatype error = RequestRejected string

text \<open>
  The answers of the training endpoints are untyped in the source. What the poller reads
  off them is \<^verbatim>\<open>initialStatus.statusId\<close> and, for each entry of the status list,
  \<^verbatim>\<open>s.details.statusId\<close>; the status number is whatever the service sent.
\<close>

record ModelTrainingDetails =
  details_statusId :: int

record ModelTrainingInfo =
  modelId :: string
  details :: ModelTrainingDetails

text \<open>
  \<^verbatim>\<open>export interface TrainingResult { success: boolean; statusId: TrainingStatus; status?: any; }\<close>
  The optional field is \<open>None\<close> when the object literal does not set it.
\<close>

record TrainingResult =
  success :: bool
  statusId :: TrainingStatus
  status :: "ModelTrainingInfo list option"

text \<open>
  What a run does to the outside world, in order: the requests it sends and the timed
  suspensions it waits for (\<^verbatim>\<open>delay(ms)\<close>).
\<close>

datatype event =
    PageRequest nat nat
  | CreateRequest string
  | TrainRequest
  | StatusRequest
  | Delay nat

section \<open>The training service, as the poller sees it\<close>

text \<open>
  \<open>train_post\<close> answers \<^verbatim>\<open>POST {appId}/versions/{versionId}/train\<close>.
  \<open>train_get\<close> answers \<^verbatim>\<open>GET {appId}/versions/{versionId}/train\<close>; its answer
  changes while the service trains, so it also depends on how many status requests the
  run has sent before this one.
\<close>

record TrainService =
  train_post :: "string \<Rightarrow> string \<Rightarrow> error + ModelTrainingDetails"
  train_get :: "string \<Rightarrow> string \<Rightarrow> nat \<Rightarrow> error + ModelTrainingInfo list"

definition trainApplicationVersion ::
  "TrainService \<Rightarrow> string \<Rightarrow> string \<Rightarrow> error + ModelTrainingDetails" where
  "trainApplicationVersion svc appId versionId = train_post svc appId versionId"

definition getVersionTrainingStatus ::
  "TrainService \<Rightarrow> string \<Rightarrow> string \<Rightarrow> nat \<Rightarrow> error + ModelTrainingInfo list" where
  "getVersionTrainingStatus svc appId versionId n = train_get svc appId versionId n"

text \<open>
  \<^verbatim>\<open>currentStatus.some(s => s.details.statusId === TrainingStatus.X)\<close> and
  \<^verbatim>\<open>currentStatus.every(s => s.details.statusId === TrainingStatus.X)\<close>.
\<close>

definition some_status :: "TrainingStatus \<Rightarrow> ModelTrainingInfo list \<Rightarrow> bool" where
  "some_status t currentStatus =
     list_ex (\<lambda>s. details_statusId (details s) = TrainingStatus_value t) currentStatus"

definition every_status :: "TrainingStatus \<Rightarrow> ModelTrainingInfo list \<Rightarrow> bool" where
  "every_status t currentStatus =
     list_all (\<lambda>s. details_statusId (details s) = TrainingStatus_value t) currentStatus"

text \<open>
  The \<^verbatim>\<open>do { delay(500); currentStatus = getVersionTrainingStatus(); inProgress = some(InProgress) }
  while (inProgress)\<close> loop. \<open>n\<close> counts the status requests sent so far and \<open>tr\<close> is the
  trace so far. The loop has no bound, so it is a partial function: \<open>None\<close> is a run that
  polls for ever.
\<close>

partial_function (option) poll_loop ::
  "TrainService \<Rightarrow> string \<Rightarrow> string \<Rightarrow> nat \<Rightarrow> event list
     \<Rightarrow> (event list \<times> (error + ModelTrainingInfo list)) option" where
  "poll_loop svc appId versionId n tr =
     (case getVersionTrainingStatus svc appId versionId n of
        Inl e \<Rightarrow> Some (tr @ [Delay 500, StatusRequest], Inl e)
      | Inr currentStatus \<Rightarrow>
          if some_status InProgress currentStatus
          then poll_loop svc appId versionId (Suc n) (tr @ [Delay 500, StatusRequest])
          else Some (tr @ [Delay 500, StatusRequest], Inr currentStatus))"

declare poll_loop.simps [code]

definition trainApplicationVersionAndWaitForCompletion ::
  "TrainService \<Rightarrow> string \<Rightarrow> string \<Rightarrow> (event list \<times> (error + TrainingResult)) option" where
  "trainApplicationVersionAndWaitForCompletion svc appId versionId =
     (case trainApplicationVersion svc appId versionId of
        Inl e \<Rightarrow> Some ([TrainRequest], Inl e)
      | Inr initialStatus \<Rightarrow>
          if details_statusId initialStatus = TrainingStatus_value UpToDate
          then Some ([TrainRequest], Inr \<lparr>success = True, statusId = UpToDate, status = None\<rparr>)
          else if details_statusId initialStatus = TrainingStatus_value Queued
          then (case poll_loop svc appId versionId 0 [TrainRequest] of
                  None \<Rightarrow> None
                | Some (tr, Inl e) \<Rightarrow> Some (tr, Inl e)
                | Some (tr, Inr currentStatus) \<Rightarrow>
                    if some_status Fail currentStatus
                    then Some (tr, Inr \<lparr>success = False, statusId = Fail,
                                        status = Some currentStatus\<rparr>)
                    else if every_status UpToDate currentStatus
                    then Some (tr, Inr \<lparr>success = True, statusId = UpToDate, status = None\<rparr>)
                    else Some (tr, Inr \<lparr>success = True, statusId = Success, status = None\<rparr>))
          else Some ([TrainRequest], Inr \<lparr>success = False, statusId = Fail, status = None\<rparr>))"

section \<open>Paged collections and find by name\<close>

text \<open>
  The items of a listed collection are untyped objects in the source; the client reads
  two properties of them, \<^verbatim>\<open>name\<close> and \<^verbatim>\<open>id\<close>. A property holds a JavaScript
  value, \<open>Undefined\<close> when the object has no such property.
\<close>

datatype jsval = Undefined | Null | JBool bool | JNum int | JStr string

text \<open>JavaScript's conversion to a boolean, which \<^verbatim>\<open>&&\<close> and \<^verbatim>\<open>!\<close> apply.\<close>

fun truthy :: "jsval \<Rightarrow> bool" where
  "truthy Undefined = False"
| "truthy Null = False"
| "truthy (JBool b) = b"
| "truthy (JNum n) = (n \<noteq> 0)"
| "truthy (JStr s) = (s \<noteq> [])"

record Item =
  item_name :: jsval
  item_id :: jsval

text \<open>
  \<^verbatim>\<open>getAllPages\<close>: the \<^verbatim>\<open>do { page = pagedFunction(skip, take); results = results.concat(page);
  skip = results.length } while (page.length === take)\<close> loop, with \<^verbatim>\<open>take = 100\<close>. The loop
  has no bound on the number of pages, so it is a partial function: \<open>None\<close> is a scan that
  never ends. \<open>tr\<close> is the trace of requests so far.
\<close>

partial_function (option) getAllPages_loop ::
  "(nat \<Rightarrow> nat \<Rightarrow> error + 'a list) \<Rightarrow> nat \<Rightarrow> nat \<Rightarrow> 'a list \<Rightarrow> event list
     \<Rightarrow> (event list \<times> (error + 'a list)) option" where
  "getAllPages_loop pagedFunction take_n skip results tr =
     (case pagedFunction skip take_n of
        Inl e \<Rightarrow> Some (tr @ [PageRequest skip take_n], Inl e)
      | Inr page \<Rightarrow>
          if length page = take_n
          then getAllPages_loop pagedFunction take_n (length (results @ page)) (results @ page)
                 (tr @ [PageRequest skip take_n])
          else Some (tr @ [PageRequest skip take_n], Inr (results @ page)))"

declare getAllPages_loop.simps [code]

definition getAllPages ::
  "(nat \<Rightarrow> nat \<Rightarrow> error + 'a list) \<Rightarrow> (event list \<times> (error + 'a list)) option" where
  "getAllPages pagedFunction = getAllPages_loop pagedFunction 100 0 [] []"

text \<open>
  \<^verbatim>\<open>findInAllPages\<close>: \<^verbatim>\<open>filteredItems && filteredItems[0] && filteredItems[0].id\<close>. An array
  is truthy even when empty, \<^verbatim>\<open>filteredItems[0]\<close> of an empty array is \<^verbatim>\<open>undefined\<close>, and
  an item is an object, so truthy.
\<close>

definition findInAllPages ::
  "(nat \<Rightarrow> nat \<Rightarrow> error + Item list) \<Rightarrow> (Item \<Rightarrow> bool) \<Rightarrow> (event list \<times> (error + jsval)) option" where
  "findInAllPages pagedFunction flt =
     (case getAllPages pagedFunction of
        None \<Rightarrow> None
      | Some (tr, Inl e) \<Rightarrow> Some (tr, Inl e)
      | Some (tr, Inr items) \<Rightarrow>
          (case filter flt items of
             [] \<Rightarrow> Some (tr, Inr Undefined)
           | first # _ \<Rightarrow> Some (tr, Inr (item_id first))))"

text \<open>
  The authoring service behind the list and create endpoints the find operations use.
  Each field answers one request: \<open>apps_get skip take\<close> is \<^verbatim>\<open>GET ?skip=..&take=..\<close>,
  \<open>apps_post\<close> is \<^verbatim>\<open>POST ""\<close> with the new application's name, description, culture and
  initial version, and the others are \<^verbatim>\<open>GET {appId}/versions/{versionId}/<collection>?skip=..&take=..\<close>.
\<close>

record AuthoringService =
  apps_get :: "nat \<Rightarrow> nat \<Rightarrow> error + Item list"
  apps_post :: "string \<Rightarrow> string \<Rightarrow> string \<Rightarrow> string \<Rightarrow> error + jsval"
  closedlists_get :: "string \<Rightarrow> string \<Rightarrow> nat \<Rightarrow> nat \<Rightarrow> error + Item list"
  entities_get :: "string \<Rightarrow> string \<Rightarrow> nat \<Rightarrow> nat \<Rightarrow> error + Item list"
  hierarchicalentities_get :: "string \<Rightarrow> string \<Rightarrow> nat \<Rightarrow> nat \<Rightarrow> error + Item list"
  intents_get :: "string \<Rightarrow> string \<Rightarrow> nat \<Rightarrow> nat \<Rightarrow> error + Item list"
  prebuilts_get :: "string \<Rightarrow> string \<Rightarrow> nat \<Rightarrow> nat \<Rightarrow> error + Item list"

definition addApplication ::
  "AuthoringService \<Rightarrow> string \<Rightarrow> string \<Rightarrow> string \<Rightarrow> string \<Rightarrow> error + jsval" where
  "addApplication svc name description culture initialVersionId =
     apps_post svc name description culture initialVersionId"

definition getApplicationsList ::
  "AuthoringService \<Rightarrow> nat \<Rightarrow> nat \<Rightarrow> error + Item list" where
  "getApplicationsList svc skip take_n = apps_get svc skip take_n"

definition findApplication ::
  "AuthoringService \<Rightarrow> string \<Rightarrow> (event list \<times> (error + jsval)) option" where
  "findApplication svc name =
     findInAllPages (\<lambda>skip take_n. getApplicationsList svc skip take_n)
       (\<lambda>app. item_name app = JStr name)"

definition getVersionClosedListList ::
  "AuthoringService \<Rightarrow> string \<Rightarrow> string \<Rightarrow> nat \<Rightarrow> nat \<Rightarrow> error + Item list" where
  "getVersionClosedListList svc appId versionId skip take_n =
     closedlists_get svc appId versionId skip take_n"

definition findVersionClosedListEntity ::
  "AuthoringService \<Rightarrow> string \<Rightarrow> string \<Rightarrow> string \<Rightarrow> (event list \<times> (error + jsval)) option" where
  "findVersionClosedListEntity svc appId versionId entityName =
     findInAllPages (\<lambda>skip take_n. getVersionClosedListList svc appId versionId skip take_n)
       (\<lambda>entity. item_name entity = JStr entityName)"

definition getVersionEntityList ::
  "AuthoringService \<Rightarrow> string \<Rightarrow> string \<Rightarrow> nat \<Rightarrow> nat \<Rightarrow> error + Item list" where
  "getVersionEntityList svc appId versionId skip take_n =
     entities_get svc appId versionId skip take_n"

definition findVersionEntity ::
  "AuthoringService \<Rightarrow> string \<Rightarrow> string \<Rightarrow> string \<Rightarrow> (event list \<times> (error + jsval)) option" where
  "findVersionEntity svc appId versionId entityName =
     findInAllPages (\<lambda>skip take_n. getVersionEntityList svc appId versionId skip take_n)
       (\<lambda>entity. item_name entity = JStr entityName)"

definition getVersionHierarchicalEntityList ::
  "AuthoringService \<Rightarrow> string \<Rightarrow> string \<Rightarrow> nat \<Rightarrow> nat \<Rightarrow> error + Item list" where
  "getVersionHierarchicalEntityList svc appId versionId skip take_n =
     hierarchicalentities_get svc appId versionId skip take_n"

definition findVersionHierarchicalEntity ::
  "AuthoringService \<Rightarrow> string \<Rightarrow> string \<Rightarrow> string \<Rightarrow> (event list \<times> (error + jsval)) option" where
  "findVersionHierarchicalEntity svc appId versionId entityName =
     findInAllPages
       (\<lambda>skip take_n. getVersionHierarchicalEntityList svc appId versionId skip take_n)
       (\<lambda>entity. item_name entity = JStr entityName)"

definition getVersionIntentList ::
  "AuthoringService \<Rightarrow> string \<Rightarrow> string \<Rightarrow> nat \<Rightarrow> nat \<Rightarrow> error + Item list" where
  "getVersionIntentList svc appId versionId skip take_n =
     intents_get svc appId versionId skip take_n"

definition findVersionIntent ::
  "AuthoringService \<Rightarrow> string \<Rightarrow> string \<Rightarrow> string \<Rightarrow> (event list \<times> (error + jsval)) option" where
  "findVersionIntent svc appId versionId intentName =
     findInAllPages (\<lambda>skip take_n. getVersionIntentList svc appId versionId skip take_n)
       (\<lambda>intent. item_name intent = JStr intentName)"

definition getVersionPrebuiltEntityList ::
  "AuthoringService \<Rightarrow> string \<Rightarrow> string \<Rightarrow> nat \<Rightarrow> nat \<Rightarrow> error + Item list" where
  "getVersionPrebuiltEntityList svc appId versionId skip take_n =
     prebuilts_get svc appId versionId skip take_n"

definition findVersionPrebuiltEntity ::
  "AuthoringService \<Rightarrow> string \<Rightarrow> string \<Rightarrow> string \<Rightarrow> (event list \<times> (error + jsval)) option" where
  "findVersionPrebuiltEntity svc appId versionId entityName =
     findInAllPages (\<lambda>skip take_n. getVersionPrebuiltEntityList svc appId versionId skip take_n)
       (\<lambda>entity. item_name entity = JStr entityName)"

text \<open>
  The find-or-create sequence of the top-level script (here for the application; the
  script repeats the shape for each kind of resource):
  \<^verbatim>\<open>let appId = await luis.apps.findApplication(name);
  if (!appId) { appId = await luis.apps.addApplication(name, description, culture, version); }\<close>
  The run's value is the \<^verbatim>\<open>appId\<close> the script goes on with; the script itself passes
  the name \<^verbatim>\<open>"Test"\<close>.
\<close>

definition find_or_add_application ::
  "AuthoringService \<Rightarrow> string \<Rightarrow> string \<Rightarrow> string \<Rightarrow> string
     \<Rightarrow> (event list \<times> (error + jsval)) option" where
  "find_or_add_application svc name description culture initialVersionId =
     (case findApplication svc name of
        None \<Rightarrow> None
      | Some (tr, Inl e) \<Rightarrow> Some (tr, Inl e)
      | Some (tr, Inr appId) \<Rightarrow>
          if \<not> truthy appId
          then Some (tr @ [CreateRequest name],
                     addApplication svc name description culture initialVersionId)
          else Some (tr, Inr appId))"

definition main_appId :: "AuthoringService \<Rightarrow> (event list \<times> (error + jsval)) option" where
  "main_appId svc =
     find_or_add_application svc ''Test'' ''A test LUIS app created programmatically''
       ''en-us'' ''0.1''"

subsection \<open>A stable remote collection\<close>

text \<open>
  A fetch function that serves a fixed ordered collection page by page: the page at
  \<open>skip\<close> is the next \<open>min take (remaining)\<close> items.
\<close>

definition paged_collection :: "'a list \<Rightarrow> nat \<Rightarrow> nat \<Rightarrow> error + 'a list" where
  "paged_collection xs skip take_n = Inr (take take_n (drop skip xs))"

text \<open>A remote that breaks the pagination contract: every page it returns is full.\<close>

definition always_full_page :: "nat \<Rightarrow> nat \<Rightarrow> error + nat list" where
  "always_full_page skip take_n = Inr (replicate take_n skip)"

subsection \<open>Example authoring services\<close>

text \<open>
  A stable service that lists the same collection at every list endpoint, page by page,
  and answers a creation request with a new identifier.
\<close>

definition service_of :: "Item list \<Rightarrow> AuthoringService" where
  "service_of items =
     \<lparr>apps_get = paged_collection items,
      apps_post = (\<lambda>name description culture initialVersionId. Inr (JStr ''id-new'')),
      closedlists_get = (\<lambda>appId versionId. paged_collection items),
      entities_get = (\<lambda>appId versionId. paged_collection items),
      hierarchicalentities_get = (\<lambda>appId versionId. paged_collection items),
      intents_get = (\<lambda>appId versionId. paged_collection items),
      prebuilts_get = (\<lambda>appId versionId. paged_collection items)\<rparr>"

text \<open>
  Three collections: one where the name \<^verbatim>\<open>Test\<close> is listed twice, after an item whose name
  differs only in case; one that does not list it; and one where the item named
  \<^verbatim>\<open>Test\<close> carries an empty identifier.
\<close>

definition items_with_test :: "Item list" where
  "items_with_test =
     [\<lparr>item_name = JStr ''Other'', item_id = JStr ''id-0''\<rparr>,
      \<lparr>item_name = JStr ''test'', item_id = JStr ''id-1''\<rparr>,
      \<lparr>item_name = JStr ''Test'', item_id = JStr ''id-2''\<rparr>,
      \<lparr>item_name = JStr ''Test'', item_id = JStr ''id-3''\<rparr>]"

definition items_without_test :: "Item list" where
  "items_without_test =
     [\<lparr>item_name = JStr ''Other'', item_id = JStr ''id-0''\<rparr>,
      \<lparr>item_name = JStr ''test'', item_id = JStr ''id-1''\<rparr>]"

definition items_with_blank_id :: "Item list" where
  "items_with_blank_id =
     [\<lparr>item_name = JStr ''Other'', item_id = JStr ''id-0''\<rparr>,
      \<lparr>item_name = JStr ''Test'', item_id = JStr []\<rparr>]"

text \<open>The collection after the service has registered a created application.\<close>

definition items_after_create :: "Item list" where
  "items_after_create =
     items_without_test @ [\<lparr>item_name = JStr ''Test'', item_id = JStr ''id-new''\<rparr>]"

subsection \<open>Example training services\<close>

text \<open>
  Scripted services, after the scenarios of the specification: the application is
  already up to date; the training-start call answers \<open>InProgress\<close>; training is queued, in progress at the first poll and failed at the
  second; training is queued and the second poll lists no model at all; training is queued
  and the first poll already shows a finished mixture.
\<close>

definition model_info :: "string \<Rightarrow> TrainingStatus \<Rightarrow> ModelTrainingInfo" where
  "model_info m t = \<lparr>modelId = m, details = \<lparr>details_statusId = TrainingStatus_value t\<rparr>\<rparr>"

definition svc_up_to_date :: TrainService where
  "svc_up_to_date =
     \<lparr>train_post = (\<lambda>appId versionId. Inr \<lparr>details_statusId = 2\<rparr>),
      train_get = (\<lambda>appId versionId n. Inl (RequestRejected ''not trained''))\<rparr>"

definition svc_in_progress_at_once :: TrainService where
  "svc_in_progress_at_once =
     \<lparr>train_post = (\<lambda>appId versionId. Inr \<lparr>details_statusId = 3\<rparr>),
      train_get = (\<lambda>appId versionId n. Inr [model_info ''m1'' Success])\<rparr>"

definition svc_fails_at_second_poll :: TrainService where
  "svc_fails_at_second_poll =
     \<lparr>train_post = (\<lambda>appId versionId. Inr \<lparr>details_statusId = 9\<rparr>),
      train_get = (\<lambda>appId versionId n.
        if n = 0 then Inr [model_info ''m1'' InProgress, model_info ''m2'' Success]
        else Inr [model_info ''m1'' Fail, model_info ''m2'' Fail])\<rparr>"

definition svc_empty_at_second_poll :: TrainService where
  "svc_empty_at_second_poll =
     \<lparr>train_post = (\<lambda>appId versionId. Inr \<lparr>details_statusId = 9\<rparr>),
      train_get = (\<lambda>appId versionId n.
        if n = 0 then Inr [model_info ''m1'' InProgress] else Inr [])\<rparr>"

definition svc_mixed_at_first_poll :: TrainService where
  "svc_mixed_at_first_poll =
     \<lparr>train_post = (\<lambda>appId versionId. Inr \<lparr>details_statusId = 9\<rparr>),
      train_get = (\<lambda>appId versionId n.
        Inr [model_info ''m1'' Success, model_info ''m2'' UpToDate])\<rparr>"

section \<open>Properties of the training-completion poller\<close>

lemma some_status_iff:
  "some_status t l \<longleftrightarrow> (\<exists>s\<in>set l. details_statusId (details s) = TrainingStatus_value t)"
  by (simp add: some_status_def list_ex_iff)

lemma every_status_iff:
  "every_status t l \<longleftrightarrow> (\<forall>s\<in>set l. details_statusId (details s) = TrainingStatus_value t)"
  by (simp add: every_status_def list_all_iff)

text \<open>
  The loop leaves after the first answer without an entry in progress: when the answers
  to status requests \<open>n, \<dots>, n + k - 1\<close> each hold an entry in progress and the answer to
  request \<open>n + k\<close> holds none, the loop returns that answer after \<open>k + 1\<close> rounds of one
  delay and one request.
\<close>

lemma poll_loop_exit:
  assumes "\<forall>j<k. \<exists>l. getVersionTrainingStatus svc a v (n + j) = Inr l \<and> some_status InProgress l"
    and "getVersionTrainingStatus svc a v (n + k) = Inr L"
    and "\<not> some_status InProgress L"
  shows "poll_loop svc a v n tr
           = Some (tr @ concat (replicate (Suc k) [Delay 500, StatusRequest]), Inr L)"
  using assms
proof (induction k arbitrary: n tr)
  case 0
  then show ?case by (subst poll_loop.simps) simp
next
  case (Suc k)
  from Suc.prems(1) obtain l where l: "getVersionTrainingStatus svc a v n = Inr l"
    "some_status InProgress l" by force
  have "\<forall>j<k. \<exists>l. getVersionTrainingStatus svc a v (Suc n + j) = Inr l \<and> some_status InProgress l"
    using Suc.prems(1) by (metis Suc_less_eq add_Suc_right add_Suc)
  moreover have "getVersionTrainingStatus svc a v (Suc n + k) = Inr L"
    using Suc.prems(2) by simp
  ultimately have "poll_loop svc a v (Suc n) (tr @ [Delay 500, StatusRequest])
     = Some ((tr @ [Delay 500, StatusRequest])
               @ concat (replicate (Suc k) [Delay 500, StatusRequest]), Inr L)"
    using Suc.prems(3) by (rule Suc.IH)
  then show ?case using l by (subst poll_loop.simps) simp
qed

text \<open>Whatever the loop returns, it has first waited once and asked once.\<close>

lemma poll_loop_trace:
  assumes "poll_loop svc a v n tr = Some y"
  shows "\<exists>rest. fst y = tr @ Delay 500 # StatusRequest # rest"
proof (rule poll_loop.raw_induct
    [where P = "\<lambda>svc a v n tr y. \<exists>rest. fst y = tr @ Delay 500 # StatusRequest # rest",
      OF _ assms])
  fix loop :: "TrainService \<Rightarrow> string \<Rightarrow> string \<Rightarrow> nat \<Rightarrow> event list
     \<Rightarrow> (event list \<times> (error + ModelTrainingInfo list)) option"
  fix svc a v n tr y
  assume IH: "\<And>svc a v n tr y. loop svc a v n tr = Some y
                \<Longrightarrow> \<exists>rest. fst y = tr @ Delay 500 # StatusRequest # rest"
  assume body: "(case getVersionTrainingStatus svc a v n of
        Inl e \<Rightarrow> Some (tr @ [Delay 500, StatusRequest], Inl e)
      | Inr currentStatus \<Rightarrow>
          if some_status InProgress currentStatus
          then loop svc a v (Suc n) (tr @ [Delay 500, StatusRequest])
          else Some (tr @ [Delay 500, StatusRequest], Inr currentStatus)) = Some y"
  show "\<exists>rest. fst y = tr @ Delay 500 # StatusRequest # rest"
  proof (cases "getVersionTrainingStatus svc a v n")
    case (Inl e)
    with body show ?thesis by auto
  next
    case (Inr l)
    show ?thesis
    proof (cases "some_status InProgress l")
      case True
      with body Inr have "loop svc a v (Suc n) (tr @ [Delay 500, StatusRequest]) = Some y"
        by simp
      from IH[OF this] show ?thesis by auto
    next
      case False
      with body Inr show ?thesis by auto
    qed
  qed
qed

text \<open>The runs of the example services.\<close>

lemma poll_loop_fails_at_second_poll:
  "poll_loop svc_fails_at_second_poll ''app'' ''0.1'' 0 [TrainRequest] =
     Some ([TrainRequest, Delay 500, StatusRequest, Delay 500, StatusRequest],
           Inr [model_info ''m1'' Fail, model_info ''m2'' Fail])"
  by (simp add: poll_loop.simps getVersionTrainingStatus_def svc_fails_at_second_poll_def
      some_status_def model_info_def)

lemma count_rounds:
  "count_list (concat (replicate k [Delay 500, StatusRequest])) StatusRequest = k"
  by (induction k) simp_all

text \<open>
  Claim C1. When the polling loop leaves with the final status list \<open>L\<close>, the result is:
  failure with status \<open>Fail\<close> and \<open>L\<close> attached if some entry of \<open>L\<close> is \<open>Fail\<close>; otherwise
  success with status \<open>UpToDate\<close> if every entry of \<open>L\<close> is \<open>UpToDate\<close>; otherwise success
  with status \<open>Success\<close>.
\<close>

theorem poller_classifies_final_status_list:
  assumes "trainApplicationVersion svc appId versionId = Inr initialStatus"
    and "details_statusId initialStatus = TrainingStatus_value Queued"
    and "poll_loop svc appId versionId 0 [TrainRequest] = Some (tr, Inr L)"
  shows "trainApplicationVersionAndWaitForCompletion svc appId versionId =
           Some (tr, Inr
             (if \<exists>s\<in>set L. details_statusId (details s) = TrainingStatus_value Fail
              then \<lparr>success = False, statusId = Fail, status = Some L\<rparr>
              else if \<forall>s\<in>set L. details_statusId (details s) = TrainingStatus_value UpToDate
              then \<lparr>success = True, statusId = UpToDate, status = None\<rparr>
              else \<lparr>success = True, statusId = Success, status = None\<rparr>))"
  using assms
  by (simp add: trainApplicationVersionAndWaitForCompletion_def some_status_iff every_status_iff)

theorem poller_classifies_final_status_list_witness:
  "trainApplicationVersionAndWaitForCompletion svc_fails_at_second_poll ''app'' ''0.1'' =
     Some ([TrainRequest, Delay 500, StatusRequest, Delay 500, StatusRequest],
           Inr \<lparr>success = False, statusId = Fail,
                status = Some [model_info ''m1'' Fail, model_info ''m2'' Fail]\<rparr>)"
  using poller_classifies_final_status_list
    [of svc_fails_at_second_poll "''app''" "''0.1''" "\<lparr>details_statusId = 9\<rparr>",
      OF _ _ poll_loop_fails_at_second_poll]
  by (simp add: trainApplicationVersion_def svc_fails_at_second_poll_def model_info_def)

text \<open>
  Claim C2. The poller dispatches on the immediate status of the training-start call:
  \<open>UpToDate\<close> gives success with status \<open>UpToDate\<close> and no status request; \<open>Queued\<close> enters
  the polling loop (the run ends exactly when the loop does, with the loop's trace, which
  starts with one delay and one status request); every other status gives failure with
  status \<open>Fail\<close> and no status request.
\<close>

theorem poller_dispatches_on_immediate_status:
  assumes "trainApplicationVersion svc appId versionId = Inr initialStatus"
  shows "(details_statusId initialStatus = TrainingStatus_value UpToDate \<longrightarrow>
            (\<exists>tr. trainApplicationVersionAndWaitForCompletion svc appId versionId =
                     Some (tr, Inr \<lparr>success = True, statusId = UpToDate, status = None\<rparr>)
                 \<and> count_list tr StatusRequest = 0))
       \<and> (details_statusId initialStatus = TrainingStatus_value Queued \<longrightarrow>
            map_option fst (trainApplicationVersionAndWaitForCompletion svc appId versionId)
              = map_option fst (poll_loop svc appId versionId 0 [TrainRequest])
          \<and> (\<forall>tr r. trainApplicationVersionAndWaitForCompletion svc appId versionId = Some (tr, r)
                 \<longrightarrow> take 3 tr = [TrainRequest, Delay 500, StatusRequest]))
       \<and> (details_statusId initialStatus \<noteq> TrainingStatus_value UpToDate
          \<and> details_statusId initialStatus \<noteq> TrainingStatus_value Queued \<longrightarrow>
            (\<exists>tr. trainApplicationVersionAndWaitForCompletion svc appId versionId =
                     Some (tr, Inr \<lparr>success = False, statusId = Fail, status = None\<rparr>)
                 \<and> count_list tr StatusRequest = 0))"
proof (intro conjI impI)
  assume "details_statusId initialStatus = TrainingStatus_value UpToDate"
  with assms show "\<exists>tr. trainApplicationVersionAndWaitForCompletion svc appId versionId =
                     Some (tr, Inr \<lparr>success = True, statusId = UpToDate, status = None\<rparr>)
                 \<and> count_list tr StatusRequest = 0"
    by (simp add: trainApplicationVersionAndWaitForCompletion_def)
next
  assume "details_statusId initialStatus \<noteq> TrainingStatus_value UpToDate
          \<and> details_statusId initialStatus \<noteq> TrainingStatus_value Queued"
  with assms show "\<exists>tr. trainApplicationVersionAndWaitForCompletion svc appId versionId =
                     Some (tr, Inr \<lparr>success = False, statusId = Fail, status = None\<rparr>)
                 \<and> count_list tr StatusRequest = 0"
    by (simp add: trainApplicationVersionAndWaitForCompletion_def)
next
  assume q: "details_statusId initialStatus = TrainingStatus_value Queued"
  with assms show same: "map_option fst (trainApplicationVersionAndWaitForCompletion svc appId versionId)
              = map_option fst (poll_loop svc appId versionId 0 [TrainRequest])"
    by (simp add: trainApplicationVersionAndWaitForCompletion_def
        split: option.split prod.split sum.split)
  show "\<forall>tr r. trainApplicationVersionAndWaitForCompletion svc appId versionId = Some (tr, r)
                 \<longrightarrow> take 3 tr = [TrainRequest, Delay 500, StatusRequest]"
  proof (intro allI impI)
    fix tr r
    assume "trainApplicationVersionAndWaitForCompletion svc appId versionId = Some (tr, r)"
    with same obtain y where y: "poll_loop svc appId versionId 0 [TrainRequest] = Some y"
      and "fst y = tr"
      by (cases "poll_loop svc appId versionId 0 [TrainRequest]") auto
    with poll_loop_trace[OF y] show "take 3 tr = [TrainRequest, Delay 500, StatusRequest]"
      by auto
  qed
qed

theorem poller_dispatches_on_immediate_status_witness:
  "(\<exists>tr. trainApplicationVersionAndWaitForCompletion svc_up_to_date ''app'' ''0.1'' =
            Some (tr, Inr \<lparr>success = True, statusId = UpToDate, status = None\<rparr>)
        \<and> count_list tr StatusRequest = 0)
   \<and> map_option fst (trainApplicationVersionAndWaitForCompletion
                       svc_fails_at_second_poll ''app'' ''0.1'')
       = Some [TrainRequest, Delay 500, StatusRequest, Delay 500, StatusRequest]
   \<and> (\<exists>tr. trainApplicationVersionAndWaitForCompletion svc_in_progress_at_once ''app'' ''0.1'' =
            Some (tr, Inr \<lparr>success = False, statusId = Fail, status = None\<rparr>)
        \<and> count_list tr StatusRequest = 0)"
  using poller_dispatches_on_immediate_status
      [of svc_up_to_date "''app''" "''0.1''" "\<lparr>details_statusId = 2\<rparr>"]
    poller_dispatches_on_immediate_status
      [of svc_fails_at_second_poll "''app''" "''0.1''" "\<lparr>details_statusId = 9\<rparr>"]
    poller_dispatches_on_immediate_status
      [of svc_in_progress_at_once "''app''" "''0.1''" "\<lparr>details_statusId = 3\<rparr>"]
    poll_loop_fails_at_second_poll
  by (simp add: trainApplicationVersion_def svc_up_to_date_def svc_fails_at_second_poll_def
      svc_in_progress_at_once_def)

text \<open>
  Claim C3. After an immediate status \<open>Queued\<close>, each round of the loop is one delay of
  500 ms followed by one status request, and the loop leaves exactly after the first
  answer that holds no entry in progress: if the first \<open>k\<close> answers each hold an entry in
  progress and the next one, \<open>L\<close>, holds none, the run is the training request followed by
  \<open>k + 1\<close> such rounds. In particular, when the first answer holds an entry in progress
  and the second holds only \<open>Fail\<close> entries (and at least one), exactly two status requests
  are made and the result is failure with status \<open>Fail\<close>.
\<close>

theorem poller_polls_until_none_in_progress:
  assumes "trainApplicationVersion svc appId versionId = Inr initialStatus"
    and "details_statusId initialStatus = TrainingStatus_value Queued"
    and "\<forall>j<k. \<exists>l. getVersionTrainingStatus svc appId versionId j = Inr l
                  \<and> (\<exists>s\<in>set l. details_statusId (details s) = TrainingStatus_value InProgress)"
    and "getVersionTrainingStatus svc appId versionId k = Inr L"
    and "\<forall>s\<in>set L. details_statusId (details s) \<noteq> TrainingStatus_value InProgress"
  shows "(\<exists>r. trainApplicationVersionAndWaitForCompletion svc appId versionId =
               Some (TrainRequest # concat (replicate (Suc k) [Delay 500, StatusRequest]), Inr r))
       \<and> (k = 1 \<and> L \<noteq> []
            \<and> (\<forall>s\<in>set L. details_statusId (details s) = TrainingStatus_value Fail) \<longrightarrow>
          (\<exists>tr. trainApplicationVersionAndWaitForCompletion svc appId versionId =
                  Some (tr, Inr \<lparr>success = False, statusId = Fail, status = Some L\<rparr>)
               \<and> count_list tr StatusRequest = 2))"
proof -
  let ?tr = "TrainRequest # concat (replicate (Suc k) [Delay 500, StatusRequest])"
  have "\<forall>j<k. \<exists>l. getVersionTrainingStatus svc appId versionId (0 + j) = Inr l
                  \<and> some_status InProgress l"
    using assms(3) by (simp add: some_status_iff)
  moreover have "getVersionTrainingStatus svc appId versionId (0 + k) = Inr L"
    using assms(4) by simp
  moreover have "\<not> some_status InProgress L"
    using assms(5) by (simp add: some_status_iff)
  ultimately have "poll_loop svc appId versionId 0 [TrainRequest]
      = Some ([TrainRequest] @ concat (replicate (Suc k) [Delay 500, StatusRequest]), Inr L)"
    by (rule poll_loop_exit)
  then have loop: "poll_loop svc appId versionId 0 [TrainRequest] = Some (?tr, Inr L)"
    by simp
  have general: "\<exists>r. trainApplicationVersionAndWaitForCompletion svc appId versionId
                        = Some (?tr, Inr r)"
    using assms(1,2) loop by (simp add: trainApplicationVersionAndWaitForCompletion_def)
  have particular: "\<exists>tr. trainApplicationVersionAndWaitForCompletion svc appId versionId =
                  Some (tr, Inr \<lparr>success = False, statusId = Fail, status = Some L\<rparr>)
               \<and> count_list tr StatusRequest = 2"
    if k: "k = 1" and ne: "L \<noteq> []"
      and fail: "\<forall>s\<in>set L. details_statusId (details s) = TrainingStatus_value Fail"
  proof -
    from ne fail have "some_status Fail L"
      by (cases L) (auto simp: some_status_iff)
    with assms(1,2) loop
    have "trainApplicationVersionAndWaitForCompletion svc appId versionId =
            Some (?tr, Inr \<lparr>success = False, statusId = Fail, status = Some L\<rparr>)"
      by (simp add: trainApplicationVersionAndWaitForCompletion_def)
    moreover have "count_list ?tr StatusRequest = 2"
      using k by simp
    ultimately show ?thesis by blast
  qed
  from general particular show ?thesis by blast
qed

theorem poller_polls_until_none_in_progress_witness:
  "\<exists>tr. trainApplicationVersionAndWaitForCompletion svc_fails_at_second_poll ''app'' ''0.1'' =
          Some (tr, Inr \<lparr>success = False, statusId = Fail,
                         status = Some [model_info ''m1'' Fail, model_info ''m2'' Fail]\<rparr>)
       \<and> count_list tr StatusRequest = 2"
  using poller_polls_until_none_in_progress
      [of svc_fails_at_second_poll "''app''" "''0.1''" "\<lparr>details_statusId = 9\<rparr>" 1
          "[model_info ''m1'' Fail, model_info ''m2'' Fail]"]
  by (simp add: trainApplicationVersion_def getVersionTrainingStatus_def
      svc_fails_at_second_poll_def model_info_def)

text \<open>
  Claim C8. Every result the poller returns has \<open>success\<close> true exactly when its status is
  \<open>Success\<close> or \<open>UpToDate\<close>, and carries the raw status list only when \<open>success\<close> is false.
\<close>

theorem training_result_invariant:
  assumes "trainApplicationVersionAndWaitForCompletion svc appId versionId = Some (tr, Inr result)"
  shows "(success result \<longleftrightarrow> statusId result = Success \<or> statusId result = UpToDate)
       \<and> (status result \<noteq> None \<longrightarrow> \<not> success result)"
  using assms
  by (auto simp: trainApplicationVersionAndWaitForCompletion_def
      split: sum.splits if_splits option.splits prod.splits)

theorem training_result_invariant_witness:
  "\<exists>tr result.
     trainApplicationVersionAndWaitForCompletion svc_fails_at_second_poll ''app'' ''0.1''
       = Some (tr, Inr result)
     \<and> success result = (statusId result = Success \<or> statusId result = UpToDate)
     \<and> status result \<noteq> None \<and> success result = False"
proof -
  have run: "trainApplicationVersionAndWaitForCompletion svc_fails_at_second_poll ''app'' ''0.1'' =
     Some ([TrainRequest, Delay 500, StatusRequest, Delay 500, StatusRequest],
           Inr \<lparr>success = False, statusId = Fail,
                status = Some [model_info ''m1'' Fail, model_info ''m2'' Fail]\<rparr>)"
    by (simp add: trainApplicationVersionAndWaitForCompletion_def trainApplicationVersion_def
        getVersionTrainingStatus_def svc_fails_at_second_poll_def poll_loop.simps
        some_status_def every_status_def model_info_def)
  have "status \<lparr>success = False, statusId = Fail,
                status = Some [model_info ''m1'' Fail, model_info ''m2'' Fail]\<rparr> \<noteq> None"
    by simp
  with training_result_invariant[OF run] run show ?thesis by blast
qed

text \<open>
  Claim C9. After an immediate status \<open>Queued\<close>, a status request answered with the empty
  list ends the loop at that round, and the result is success with status \<open>UpToDate\<close>.
\<close>

theorem poller_empty_status_list_is_up_to_date:
  assumes "trainApplicationVersion svc appId versionId = Inr initialStatus"
    and "details_statusId initialStatus = TrainingStatus_value Queued"
    and "\<forall>j<k. \<exists>l. getVersionTrainingStatus svc appId versionId j = Inr l
                  \<and> (\<exists>s\<in>set l. details_statusId (details s) = TrainingStatus_value InProgress)"
    and "getVersionTrainingStatus svc appId versionId k = Inr []"
  shows "trainApplicationVersionAndWaitForCompletion svc appId versionId =
           Some (TrainRequest # concat (replicate (Suc k) [Delay 500, StatusRequest]),
                 Inr \<lparr>success = True, statusId = UpToDate, status = None\<rparr>)"
proof -
  have "\<forall>j<k. \<exists>l. getVersionTrainingStatus svc appId versionId (0 + j) = Inr l
                  \<and> some_status InProgress l"
    using assms(3) by (simp add: some_status_iff)
  moreover have "getVersionTrainingStatus svc appId versionId (0 + k) = Inr []"
    using assms(4) by simp
  moreover have "\<not> some_status InProgress []"
    by (simp add: some_status_def)
  ultimately have "poll_loop svc appId versionId 0 [TrainRequest]
      = Some ([TrainRequest] @ concat (replicate (Suc k) [Delay 500, StatusRequest]), Inr [])"
    by (rule poll_loop_exit)
  with assms(1,2) show ?thesis
    by (simp add: trainApplicationVersionAndWaitForCompletion_def some_status_def
        every_status_def)
qed

theorem poller_empty_status_list_is_up_to_date_witness:
  "trainApplicationVersionAndWaitForCompletion svc_empty_at_second_poll ''app'' ''0.1'' =
     Some ([TrainRequest, Delay 500, StatusRequest, Delay 500, StatusRequest],
           Inr \<lparr>success = True, statusId = UpToDate, status = None\<rparr>)"
  using poller_empty_status_list_is_up_to_date
      [of svc_empty_at_second_poll "''app''" "''0.1''" "\<lparr>details_statusId = 9\<rparr>" 1]
  by (simp add: trainApplicationVersion_def getVersionTrainingStatus_def
      svc_empty_at_second_poll_def model_info_def)

section \<open>Properties of the paged-collection scanner\<close>

text \<open>
  The scan leaves after the first page whose length differs from the page size: when the
  pages at \<open>skip, skip + take, \<dots>\<close> are full \<open>k\<close> times and the next one is not, the loop
  returns after \<open>k + 1\<close> requests with all the pages appended to what it held. A scan
  that only ever meets full pages does not return.
\<close>

lemma getAllPages_loop_exit:
  assumes "\<forall>j<k. pagedFunction (skip + j * take_n) take_n = Inr (pg j) \<and> length (pg j) = take_n"
    and "pagedFunction (skip + k * take_n) take_n = Inr (pg k)"
    and "length (pg k) \<noteq> take_n"
    and "skip = length results"
  shows "getAllPages_loop pagedFunction take_n skip results tr =
           Some (tr @ map (\<lambda>j. PageRequest (skip + j * take_n) take_n) [0..<Suc k],
                 Inr (results @ concat (map pg [0..<Suc k])))"
  using assms
proof (induction k arbitrary: skip results tr pg)
  case 0
  then show ?case by (subst getAllPages_loop.simps) simp
next
  case (Suc k)
  from Suc.prems(1) have first: "pagedFunction skip take_n = Inr (pg 0)" "length (pg 0) = take_n"
    by force+
  define skip' where "skip' = length (results @ pg 0)"
  have skip': "skip' = skip + take_n"
    using first(2) Suc.prems(4) by (simp add: skip'_def)
  have shift: "skip' + j * take_n = skip + Suc j * take_n" for j
    by (simp add: skip')
  have "\<forall>j<k. pagedFunction (skip' + j * take_n) take_n = Inr (pg (Suc j))
               \<and> length (pg (Suc j)) = take_n"
  proof (intro allI impI)
    fix j assume "j < k"
    then have "Suc j < Suc k" by simp
    with Suc.prems(1) have "pagedFunction (skip + Suc j * take_n) take_n = Inr (pg (Suc j))
        \<and> length (pg (Suc j)) = take_n" by blast
    then show "pagedFunction (skip' + j * take_n) take_n = Inr (pg (Suc j))
               \<and> length (pg (Suc j)) = take_n"
      by (simp only: shift)
  qed
  moreover have "pagedFunction (skip' + k * take_n) take_n = Inr (pg (Suc k))"
    using Suc.prems(2) by (simp only: shift)
  moreover have "length (pg (Suc k)) \<noteq> take_n"
    using Suc.prems(3) .
  moreover have "skip' = length (results @ pg 0)"
    by (simp add: skip'_def)
  ultimately have "getAllPages_loop pagedFunction take_n skip' (results @ pg 0)
                     (tr @ [PageRequest skip take_n]) =
      Some ((tr @ [PageRequest skip take_n])
              @ map (\<lambda>j. PageRequest (skip' + j * take_n) take_n) [0..<Suc k],
            Inr ((results @ pg 0) @ concat (map (\<lambda>j. pg (Suc j)) [0..<Suc k])))"
    by (rule Suc.IH[where pg = "\<lambda>j. pg (Suc j)"])
  then have rec: "getAllPages_loop pagedFunction take_n (length (results @ pg 0)) (results @ pg 0)
                     (tr @ [PageRequest skip take_n]) =
      Some (tr @ PageRequest skip take_n
              # map (\<lambda>j. PageRequest (skip + Suc j * take_n) take_n) [0..<Suc k],
            Inr (results @ pg 0 @ concat (map (\<lambda>j. pg (Suc j)) [0..<Suc k])))"
    unfolding shift unfolding skip'_def by simp
  have m1: "map (\<lambda>j. PageRequest (skip + j * take_n) take_n) [0..<Suc (Suc k)]
      = PageRequest skip take_n
          # map (\<lambda>j. PageRequest (skip + Suc j * take_n) take_n) [0..<Suc k]"
    by (subst map_upt_Suc) simp
  have m2: "concat (map pg [0..<Suc (Suc k)])
      = pg 0 @ concat (map (\<lambda>j. pg (Suc j)) [0..<Suc k])"
    by (subst map_upt_Suc) simp
  show ?case
    by (subst getAllPages_loop.simps) (simp only: first rec m1 m2 sum.case refl if_True)
qed

lemma getAllPages_loop_never:
  assumes "getAllPages_loop pagedFunction take_n skip results tr = Some y"
  shows "\<not> ((\<forall>j. \<exists>page. pagedFunction (skip + j * take_n) take_n = Inr page
                        \<and> length page = take_n)
            \<and> skip = length results)"
proof (rule getAllPages_loop.raw_induct
    [where P = "\<lambda>pagedFunction take_n skip results tr y.
        \<not> ((\<forall>j. \<exists>page. pagedFunction (skip + j * take_n) take_n = Inr page
                        \<and> length page = take_n)
            \<and> skip = length results)",
      OF _ assms])
  fix loop :: "(nat \<Rightarrow> nat \<Rightarrow> error + 'a list) \<Rightarrow> nat \<Rightarrow> nat \<Rightarrow> 'a list \<Rightarrow> event list
     \<Rightarrow> (event list \<times> (error + 'a list)) option"
  fix pagedFunction take_n skip results tr y
  assume IH: "\<And>pagedFunction take_n skip results tr y.
     loop pagedFunction take_n skip results tr = Some y \<Longrightarrow>
       \<not> ((\<forall>j. \<exists>page. pagedFunction (skip + j * take_n) take_n = Inr page
                        \<and> length page = take_n)
            \<and> skip = length results)"
  assume body: "(case pagedFunction skip take_n of
        Inl e \<Rightarrow> Some (tr @ [PageRequest skip take_n], Inl e)
      | Inr page \<Rightarrow>
          if length page = take_n
          then loop pagedFunction take_n (length (results @ page)) (results @ page)
                 (tr @ [PageRequest skip take_n])
          else Some (tr @ [PageRequest skip take_n], Inr (results @ page))) = Some y"
  show "\<not> ((\<forall>j. \<exists>page. pagedFunction (skip + j * take_n) take_n = Inr page
                        \<and> length page = take_n)
            \<and> skip = length results)"
  proof
    assume inv: "(\<forall>j. \<exists>page. pagedFunction (skip + j * take_n) take_n = Inr page
                        \<and> length page = take_n)
            \<and> skip = length results"
    from inv have "\<exists>page. pagedFunction (skip + 0 * take_n) take_n = Inr page
                        \<and> length page = take_n"
      by blast
    then obtain page where page: "pagedFunction skip take_n = Inr page" "length page = take_n"
      by auto
    with body have "loop pagedFunction take_n (length (results @ page)) (results @ page)
                 (tr @ [PageRequest skip take_n]) = Some y"
      by simp
    from IH[OF this] obtain j
      where j: "\<not> (\<exists>page'. pagedFunction (length (results @ page) + j * take_n) take_n
                            = Inr page' \<and> length page' = take_n)"
      by auto
    have eq: "length (results @ page) + j * take_n = skip + Suc j * take_n"
      using inv page(2) by simp
    from inv have "\<exists>page'. pagedFunction (skip + Suc j * take_n) take_n = Inr page'
                      \<and> length page' = take_n"
      by blast
    with j show False unfolding eq by blast
  qed
qed

lemma concat_pages_take:
  "concat (map (\<lambda>j. take n (drop (j * n) xs)) [0..<k]) = take (k * n) xs"
proof (induction k)
  case 0
  show ?case by simp
next
  case (Suc k)
  have "take (k * n + n) xs = take (k * n) xs @ take n (drop (k * n) xs)"
    by (rule take_add)
  with Suc show ?case by (simp add: add.commute)
qed

lemma ceiling_pages:
  fixes m :: nat
  shows "(if m mod 100 = 0 then \<lceil>real (m + 1) / 100\<rceil> else \<lceil>real m / 100\<rceil>)
           = int (m div 100 + 1)"
proof -
  define q where "q = m div 100"
  define r where "r = m mod 100"
  have m: "m = 100 * q + r" and r: "r < 100"
    by (simp_all add: q_def r_def)
  have rm: "real m = 100 * real q + real r"
    by (simp add: m)
  have a: "\<lceil>real (m + 1) / 100\<rceil> = int (q + 1)" if "r = 0"
  proof (rule ceiling_unique)
    show "of_int (int (q + 1)) - 1 < real (m + 1) / 100"
      using that by (simp add: rm)
    show "real (m + 1) / 100 \<le> of_int (int (q + 1))"
      using that by (simp add: rm)
  qed
  have b: "\<lceil>real m / 100\<rceil> = int (q + 1)" if "r \<noteq> 0"
  proof (rule ceiling_unique)
    from that have "0 < real r" by simp
    then show "of_int (int (q + 1)) - 1 < real m / 100"
      by (simp add: rm)
    from r have "real r < 100" by simp
    then show "real m / 100 \<le> of_int (int (q + 1))"
      by (simp add: rm)
  qed
  from a b show ?thesis by (simp add: q_def r_def)
qed

lemma full_page_below_div:
  fixes j m n :: nat
  assumes "j < m div n"
  shows "j * n + n \<le> m"
proof -
  from assms have "Suc j \<le> m div n" by simp
  then have "Suc j * n \<le> m div n * n" by (rule mult_le_mono1)
  also have "\<dots> \<le> m" by simp
  finally show ?thesis by (simp add: add.commute)
qed

lemma last_page_short:
  fixes m n :: nat
  assumes "0 < n"
  shows "m - m div n * n < n"
  using assms by (simp add: minus_div_mult_eq_mod)

lemma pages_cover:
  fixes m n :: nat
  assumes "0 < n"
  shows "m \<le> Suc (m div n) * n"
  using dividend_less_div_times[OF assms, of m] by simp

text \<open>
  Claim C4. With the page size 100 of \<open>getAllPages\<close> and a fetch function that serves a
  fixed ordered collection of \<open>M\<close> items page by page, \<open>getAllPages\<close> returns exactly the
  items of the collection, and sends \<open>\<lceil>(M + 1) / 100\<rceil>\<close> requests when \<open>M\<close> is a multiple
  of 100 and \<open>\<lceil>M / 100\<rceil>\<close> requests otherwise.
\<close>

theorem getAllPages_returns_whole_collection:
  "\<exists>tr. getAllPages (paged_collection xs) = Some (tr, Inr xs)
       \<and> tr = map (\<lambda>j. PageRequest (j * 100) 100) [0..<length tr]
       \<and> int (length tr) = (if length xs mod 100 = 0
                             then \<lceil>real (length xs + 1) / 100\<rceil>
                             else \<lceil>real (length xs) / 100\<rceil>)"
proof -
  define k where "k = length xs div 100"
  define pg where "pg = (\<lambda>j. take 100 (drop (j * 100) xs))"
  define trace where "trace = map (\<lambda>j. PageRequest (j * 100) 100) [0..<Suc k]"
  have full: "\<forall>j<k. paged_collection xs (0 + j * 100) 100 = Inr (pg j) \<and> length (pg j) = 100"
  proof (intro allI impI conjI)
    fix j assume "j < k"
    then have "j * 100 + 100 \<le> length xs"
      unfolding k_def by (rule full_page_below_div)
    then show "length (pg j) = 100" by (simp add: pg_def)
    show "paged_collection xs (0 + j * 100) 100 = Inr (pg j)"
      by (simp add: paged_collection_def pg_def)
  qed
  have last: "paged_collection xs (0 + k * 100) 100 = Inr (pg k)"
    by (simp add: paged_collection_def pg_def)
  have "length xs - k * 100 < 100"
    unfolding k_def by (rule last_page_short) simp
  then have short: "length (pg k) \<noteq> 100" by (simp add: pg_def)
  have "getAllPages_loop (paged_collection xs) 100 0 [] [] =
          Some ([] @ map (\<lambda>j. PageRequest (0 + j * 100) 100) [0..<Suc k],
                Inr ([] @ concat (map pg [0..<Suc k])))"
    using full last short by (rule getAllPages_loop_exit) simp
  moreover have "concat (map pg [0..<Suc k]) = xs"
  proof -
    have "length xs \<le> Suc k * 100"
      unfolding k_def by (rule pages_cover) simp
    then show ?thesis
      unfolding pg_def by (simp only: concat_pages_take take_all)
  qed
  ultimately have run: "getAllPages (paged_collection xs) = Some (trace, Inr xs)"
    by (simp add: getAllPages_def trace_def)
  have len: "length trace = k + 1"
    by (simp add: trace_def)
  have "int (length trace) = (if length xs mod 100 = 0
                             then \<lceil>real (length xs + 1) / 100\<rceil>
                             else \<lceil>real (length xs) / 100\<rceil>)"
    by (simp only: ceiling_pages len k_def)
  moreover have "trace = map (\<lambda>j. PageRequest (j * 100) 100) [0..<length trace]"
    unfolding len by (simp add: trace_def)
  ultimately show ?thesis using run by blast
qed

theorem getAllPages_returns_whole_collection_witness:
  "(\<exists>tr. getAllPages (paged_collection (replicate 100 (7::nat))) = Some (tr, Inr (replicate 100 7))
        \<and> length tr = 2)
   \<and> (\<exists>tr. getAllPages (paged_collection [1, 2, 3::nat]) = Some (tr, Inr [1, 2, 3])
        \<and> length tr = 1)"
proof -
  from getAllPages_returns_whole_collection [of "replicate 100 (7::nat)"]
  obtain tr where "getAllPages (paged_collection (replicate 100 (7::nat))) = Some (tr, Inr (replicate 100 7))"
    and "int (length tr) = (if length (replicate 100 (7::nat)) mod 100 = 0
                             then \<lceil>real (length (replicate 100 (7::nat)) + 1) / 100\<rceil>
                             else \<lceil>real (length (replicate 100 (7::nat))) / 100\<rceil>)"
    by blast
  moreover from getAllPages_returns_whole_collection [of "[1, 2, 3::nat]"]
  obtain tr' where "getAllPages (paged_collection [1, 2, 3::nat]) = Some (tr', Inr [1, 2, 3])"
    and "int (length tr') = (if length [1, 2, 3::nat] mod 100 = 0
                             then \<lceil>real (length [1, 2, 3::nat] + 1) / 100\<rceil>
                             else \<lceil>real (length [1, 2, 3::nat]) / 100\<rceil>)"
    by blast
  ultimately show ?thesis by simp
qed

text \<open>
  Claim C5. With pages that never exceed the page size 100, the scan stops right after
  the first fetched page shorter than 100 (an empty page included): if the first \<open>k\<close>
  fetched pages are full and the next one is shorter, \<open>getAllPages\<close> returns after exactly
  \<open>k + 1\<close> requests with the pages fetched, in order. If every fetched page has length
  exactly 100, \<open>getAllPages\<close> does not return.
\<close>

theorem getAllPages_stops_at_first_short_page:
  "(\<forall>k pg. (\<forall>j<k. pagedFunction (j * 100) 100 = Inr (pg j) \<and> length (pg j) = 100)
         \<and> pagedFunction (k * 100) 100 = Inr (pg k) \<and> length (pg k) < 100
       \<longrightarrow> getAllPages pagedFunction
             = Some (map (\<lambda>j. PageRequest (j * 100) 100) [0..<Suc k],
                     Inr (concat (map pg [0..<Suc k]))))
   \<and> ((\<forall>j. \<exists>page. pagedFunction (j * 100) 100 = Inr page \<and> length page = 100)
       \<longrightarrow> getAllPages pagedFunction = None)"
proof (intro conjI allI impI)
  fix k and pg :: "nat \<Rightarrow> 'a list"
  assume h: "(\<forall>j<k. pagedFunction (j * 100) 100 = Inr (pg j) \<and> length (pg j) = 100)
         \<and> pagedFunction (k * 100) 100 = Inr (pg k) \<and> length (pg k) < 100"
  have "\<forall>j<k. pagedFunction (0 + j * 100) 100 = Inr (pg j) \<and> length (pg j) = 100"
    using h by simp
  moreover have "pagedFunction (0 + k * 100) 100 = Inr (pg k)"
    using h by simp
  moreover have "length (pg k) \<noteq> 100"
    using h by simp
  ultimately have "getAllPages_loop pagedFunction 100 0 [] [] =
          Some ([] @ map (\<lambda>j. PageRequest (0 + j * 100) 100) [0..<Suc k],
                Inr ([] @ concat (map pg [0..<Suc k])))"
    by (rule getAllPages_loop_exit) simp
  then show "getAllPages pagedFunction
             = Some (map (\<lambda>j. PageRequest (j * 100) 100) [0..<Suc k],
                     Inr (concat (map pg [0..<Suc k])))"
    by (simp add: getAllPages_def)
next
  assume full: "\<forall>j. \<exists>page. pagedFunction (j * 100) 100 = Inr page \<and> length page = 100"
  show "getAllPages pagedFunction = None"
  proof (cases "getAllPages pagedFunction")
    case None
    then show ?thesis .
  next
    case (Some y)
    then have "getAllPages_loop pagedFunction 100 0 [] [] = Some y"
      by (simp add: getAllPages_def)
    from getAllPages_loop_never[OF this] full show ?thesis by simp
  qed
qed

theorem getAllPages_stops_at_first_short_page_witness:
  "getAllPages (paged_collection (replicate 100 (7::nat) @ [8]))
     = Some ([PageRequest 0 100, PageRequest 100 100], Inr (replicate 100 7 @ [8]))
   \<and> getAllPages (paged_collection ([]::nat list)) = Some ([PageRequest 0 100], Inr [])
   \<and> getAllPages always_full_page = None"
proof -
  define f where "f = paged_collection (replicate 100 (7::nat) @ [8])"
  define pg where "pg = (\<lambda>j::nat. if j = 0 then replicate 100 (7::nat) else [8])"
  have a: "(\<forall>j<Suc 0. f (j * 100) 100 = Inr (pg j) \<and> length (pg j) = 100)
         \<and> f (Suc 0 * 100) 100 = Inr (pg (Suc 0)) \<and> length (pg (Suc 0)) < 100"
    by (simp add: paged_collection_def f_def pg_def)
  have "getAllPages f = Some (map (\<lambda>j. PageRequest (j * 100) 100) [0..<Suc (Suc 0)],
                     Inr (concat (map pg [0..<Suc (Suc 0)])))"
    by (rule getAllPages_stops_at_first_short_page
        [of f, THEN conjunct1, rule_format, of "Suc 0" pg, OF a])
  then have one: "getAllPages f
     = Some ([PageRequest 0 100, PageRequest 100 100], Inr (replicate 100 7 @ [8]))"
    by (simp add: pg_def)
  define e where "e = paged_collection ([]::nat list)"
  define none where "none = (\<lambda>j::nat. []::nat list)"
  have b: "(\<forall>j<0. e (j * 100) 100 = Inr (none j) \<and> length (none j) = 100)
         \<and> e (0 * 100) 100 = Inr (none 0) \<and> length (none 0) < 100"
    by (simp add: paged_collection_def e_def none_def)
  have "getAllPages e = Some (map (\<lambda>j. PageRequest (j * 100) 100) [0..<Suc 0],
                     Inr (concat (map none [0..<Suc 0])))"
    by (rule getAllPages_stops_at_first_short_page
        [of e, THEN conjunct1, rule_format, of 0 none, OF b])
  then have two: "getAllPages e = Some ([PageRequest 0 100], Inr [])"
    by (simp add: none_def)
  have c: "\<forall>j. \<exists>page. always_full_page (j * 100) 100 = Inr page \<and> length page = 100"
    by (simp add: always_full_page_def)
  have three: "getAllPages always_full_page = None"
    by (rule getAllPages_stops_at_first_short_page
        [of always_full_page, THEN conjunct2, THEN mp, OF c])
  from one two three show ?thesis
    unfolding f_def e_def by (intro conjI)
qed

section \<open>Properties of find by name and of find-or-create\<close>

text \<open>The requests of a scan are page requests only.\<close>

lemma getAllPages_loop_requests:
  assumes "getAllPages_loop pagedFunction take_n skip results tr = Some y"
  shows "\<forall>e. e \<in> set (fst y) \<longrightarrow> e \<in> set tr \<or> (\<exists>s t. e = PageRequest s t)"
proof (rule getAllPages_loop.raw_induct
    [where P = "\<lambda>pagedFunction take_n skip results tr y.
        \<forall>e. e \<in> set (fst y) \<longrightarrow> e \<in> set tr \<or> (\<exists>s t. e = PageRequest s t)",
      OF _ assms])
  fix loop :: "(nat \<Rightarrow> nat \<Rightarrow> error + 'a list) \<Rightarrow> nat \<Rightarrow> nat \<Rightarrow> 'a list \<Rightarrow> event list
     \<Rightarrow> (event list \<times> (error + 'a list)) option"
  fix pagedFunction take_n skip results tr y
  assume IH: "\<And>pagedFunction take_n skip results tr y.
     loop pagedFunction take_n skip results tr = Some y \<Longrightarrow>
       \<forall>e. e \<in> set (fst y) \<longrightarrow> e \<in> set tr \<or> (\<exists>s t. e = PageRequest s t)"
  assume body: "(case pagedFunction skip take_n of
        Inl e \<Rightarrow> Some (tr @ [PageRequest skip take_n], Inl e)
      | Inr page \<Rightarrow>
          if length page = take_n
          then loop pagedFunction take_n (length (results @ page)) (results @ page)
                 (tr @ [PageRequest skip take_n])
          else Some (tr @ [PageRequest skip take_n], Inr (results @ page))) = Some y"
  show "\<forall>e. e \<in> set (fst y) \<longrightarrow> e \<in> set tr \<or> (\<exists>s t. e = PageRequest s t)"
  proof (cases "pagedFunction skip take_n")
    case (Inl e)
    with body show ?thesis by auto
  next
    case (Inr page)
    show ?thesis
    proof (cases "length page = take_n")
      case True
      with body Inr have "loop pagedFunction take_n (length (results @ page)) (results @ page)
                 (tr @ [PageRequest skip take_n]) = Some y"
        by simp
      from IH[OF this] show ?thesis by auto
    next
      case False
      with body Inr show ?thesis by auto
    qed
  qed
qed

lemma getAllPages_no_creation:
  assumes "getAllPages pagedFunction = Some (tr, r)"
  shows "CreateRequest n \<notin> set tr"
proof -
  from assms have "getAllPages_loop pagedFunction 100 0 [] [] = Some (tr, r)"
    by (simp add: getAllPages_def)
  from getAllPages_loop_requests[OF this] show ?thesis by auto
qed

text \<open>What filtering and taking the first element gives.\<close>

lemma filter_no_match:
  assumes "\<forall>x\<in>set items. \<not> flt x"
  shows "filter flt items = []"
  using assms by (induction items) simp_all

lemma filter_first_match:
  assumes "items = pre @ x # post" and "\<forall>y\<in>set pre. \<not> flt y" and "flt x"
  shows "filter flt items = x # filter flt post"
  using assms by (simp add: filter_no_match)

lemma findInAllPages_none:
  assumes "getAllPages pagedFunction = Some (tr, Inr items)"
    and "\<forall>x\<in>set items. \<not> flt x"
  shows "findInAllPages pagedFunction flt = Some (tr, Inr Undefined)"
  using assms(1) filter_no_match[OF assms(2)] by (simp add: findInAllPages_def)

lemma findInAllPages_first:
  assumes "getAllPages pagedFunction = Some (tr, Inr items)"
    and "items = pre @ x # post" and "\<forall>y\<in>set pre. \<not> flt y" and "flt x"
  shows "findInAllPages pagedFunction flt = Some (tr, Inr (item_id x))"
  using assms(1) filter_first_match[OF assms(2,3,4)] by (simp add: findInAllPages_def)

lemma findInAllPages_returns:
  assumes "getAllPages pagedFunction = Some (tr, Inr items)"
  shows "\<exists>v. findInAllPages pagedFunction flt = Some (tr, Inr v)"
  using assms by (simp add: findInAllPages_def split: list.split)

lemma find_by_name:
  assumes "getAllPages pagedFunction = Some (tr, Inr items)"
  shows "\<exists>v. findInAllPages pagedFunction (\<lambda>i. item_name i = JStr n) = Some (tr, Inr v)
          \<and> ((\<forall>x\<in>set items. item_name x \<noteq> JStr n) \<longrightarrow> v = Undefined)
          \<and> (\<forall>pre x post. items = pre @ x # post \<and> (\<forall>y\<in>set pre. item_name y \<noteq> JStr n)
                \<and> item_name x = JStr n \<longrightarrow> v = item_id x)"
proof -
  from findInAllPages_returns[OF assms]
  obtain v where v: "findInAllPages pagedFunction (\<lambda>i. item_name i = JStr n) = Some (tr, Inr v)"
    by blast
  have "v = Undefined" if "\<forall>x\<in>set items. item_name x \<noteq> JStr n"
    using findInAllPages_none[OF assms, of "\<lambda>i. item_name i = JStr n"] that v by simp
  moreover have "v = item_id x"
    if "items = pre @ x # post \<and> (\<forall>y\<in>set pre. item_name y \<noteq> JStr n) \<and> item_name x = JStr n"
    for pre x post
    using findInAllPages_first[OF assms, of pre x post "\<lambda>i. item_name i = JStr n"] that v
    by simp
  ultimately show ?thesis using v by blast
qed

text \<open>A collection shorter than one page is scanned with a single request.\<close>

lemma getAllPages_single_page:
  assumes "length xs < 100"
  shows "getAllPages (paged_collection xs) = Some ([PageRequest 0 100], Inr xs)"
  using assms
  by (subst getAllPages_def, subst getAllPages_loop.simps) (simp add: paged_collection_def)

lemma scan_items_with_test:
  "getAllPages (paged_collection items_with_test) = Some ([PageRequest 0 100], Inr items_with_test)"
  by (rule getAllPages_single_page) (simp add: items_with_test_def)

lemma scan_items_without_test:
  "getAllPages (paged_collection items_without_test)
     = Some ([PageRequest 0 100], Inr items_without_test)"
  by (rule getAllPages_single_page) (simp add: items_without_test_def)

lemma scan_items_with_blank_id:
  "getAllPages (paged_collection items_with_blank_id)
     = Some ([PageRequest 0 100], Inr items_with_blank_id)"
  by (rule getAllPages_single_page) (simp add: items_with_blank_id_def)

lemma scan_items_after_create:
  "getAllPages (paged_collection items_after_create)
     = Some ([PageRequest 0 100], Inr items_after_create)"
  by (rule getAllPages_single_page) (simp add: items_after_create_def items_without_test_def)

text \<open>
  Claim C6. Each find operation filters the whole scanned collection by exact equality of
  the item's name with the given name and returns the \<open>id\<close> of the first matching item;
  when no item matches it returns \<open>undefined\<close>.
\<close>

theorem find_operations_return_id_of_first_match:
  assumes "(found, listing) \<in>
      {(findApplication svc n, getApplicationsList svc),
       (findVersionIntent svc appId versionId n, getVersionIntentList svc appId versionId),
       (findVersionEntity svc appId versionId n, getVersionEntityList svc appId versionId),
       (findVersionHierarchicalEntity svc appId versionId n,
          getVersionHierarchicalEntityList svc appId versionId),
       (findVersionClosedListEntity svc appId versionId n,
          getVersionClosedListList svc appId versionId),
       (findVersionPrebuiltEntity svc appId versionId n,
          getVersionPrebuiltEntityList svc appId versionId)}"
    and "getAllPages listing = Some (tr, Inr items)"
  shows "\<exists>v. found = Some (tr, Inr v)
          \<and> ((\<forall>x\<in>set items. item_name x \<noteq> JStr n) \<longrightarrow> v = Undefined)
          \<and> (\<forall>pre x post. items = pre @ x # post \<and> (\<forall>y\<in>set pre. item_name y \<noteq> JStr n)
                \<and> item_name x = JStr n \<longrightarrow> v = item_id x)"
proof -
  have "found = findInAllPages listing (\<lambda>i. item_name i = JStr n)"
    using assms(1)
    by (auto simp: findApplication_def findVersionIntent_def findVersionEntity_def
        findVersionHierarchicalEntity_def findVersionClosedListEntity_def
        findVersionPrebuiltEntity_def)
  with find_by_name[OF assms(2), of n] show ?thesis by simp
qed

theorem find_operations_return_id_of_first_match_witness:
  "findVersionIntent (service_of items_with_test) ''app'' ''0.1'' ''Test''
     = Some ([PageRequest 0 100], Inr (JStr ''id-2''))
   \<and> findApplication (service_of items_without_test) ''Test''
     = Some ([PageRequest 0 100], Inr Undefined)"
proof -
  have l1: "getVersionIntentList (service_of items_with_test) ''app'' ''0.1''
             = paged_collection items_with_test"
    by (rule ext)+ (simp add: getVersionIntentList_def service_of_def)
  have "\<exists>v. findVersionIntent (service_of items_with_test) ''app'' ''0.1'' ''Test''
             = Some ([PageRequest 0 100], Inr v)
          \<and> ((\<forall>x\<in>set items_with_test. item_name x \<noteq> JStr ''Test'') \<longrightarrow> v = Undefined)
          \<and> (\<forall>pre x post. items_with_test = pre @ x # post
                \<and> (\<forall>y\<in>set pre. item_name y \<noteq> JStr ''Test'')
                \<and> item_name x = JStr ''Test'' \<longrightarrow> v = item_id x)"
    by (rule find_operations_return_id_of_first_match
        [where svc = "service_of items_with_test" and appId = "''app''" and versionId = "''0.1''"
           and listing = "paged_collection items_with_test"])
      (simp_all add: l1 scan_items_with_test)
  then obtain v where v: "findVersionIntent (service_of items_with_test) ''app'' ''0.1'' ''Test''
             = Some ([PageRequest 0 100], Inr v)"
    and first: "\<And>pre x post. items_with_test = pre @ x # post
                \<and> (\<forall>y\<in>set pre. item_name y \<noteq> JStr ''Test'')
                \<and> item_name x = JStr ''Test'' \<Longrightarrow> v = item_id x"
    by blast
  have "v = item_id \<lparr>item_name = JStr ''Test'', item_id = JStr ''id-2''\<rparr>"
    by (rule first[of "[\<lparr>item_name = JStr ''Other'', item_id = JStr ''id-0''\<rparr>,
                        \<lparr>item_name = JStr ''test'', item_id = JStr ''id-1''\<rparr>]" _
                      "[\<lparr>item_name = JStr ''Test'', item_id = JStr ''id-3''\<rparr>]"])
      (simp add: items_with_test_def)
  with v have one: "findVersionIntent (service_of items_with_test) ''app'' ''0.1'' ''Test''
     = Some ([PageRequest 0 100], Inr (JStr ''id-2''))"
    by simp
  have l2: "getApplicationsList (service_of items_without_test)
             = paged_collection items_without_test"
    by (rule ext)+ (simp add: getApplicationsList_def service_of_def)
  have "\<exists>v. findApplication (service_of items_without_test) ''Test''
             = Some ([PageRequest 0 100], Inr v)
          \<and> ((\<forall>x\<in>set items_without_test. item_name x \<noteq> JStr ''Test'') \<longrightarrow> v = Undefined)
          \<and> (\<forall>pre x post. items_without_test = pre @ x # post
                \<and> (\<forall>y\<in>set pre. item_name y \<noteq> JStr ''Test'')
                \<and> item_name x = JStr ''Test'' \<longrightarrow> v = item_id x)"
    by (rule find_operations_return_id_of_first_match
        [where svc = "service_of items_without_test" and appId = "''app''"
           and versionId = "''0.1''" and listing = "paged_collection items_without_test"])
      (simp_all add: l2 scan_items_without_test)
  moreover have "\<forall>x\<in>set items_without_test. item_name x \<noteq> JStr ''Test''"
    by (simp add: items_without_test_def)
  ultimately have two: "findApplication (service_of items_without_test) ''Test''
     = Some ([PageRequest 0 100], Inr Undefined)"
    by blast
  from one two show ?thesis by (rule conjI)
qed

lemma getApplicationsList_service_of:
  "getApplicationsList (service_of items) = paged_collection items"
  by (rule ext)+ (simp add: getApplicationsList_def service_of_def)

lemma findApplication_eq:
  "findApplication svc n = findInAllPages (getApplicationsList svc) (\<lambda>i. item_name i = JStr n)"
  by (simp add: findApplication_def)

text \<open>
  Claim C7, as stated, fails: the collection lists an application named \<^verbatim>\<open>Test\<close>, yet the
  find-or-create sequence of the script sends a creation request, because the first item
  of that name carries an empty identifier.
\<close>

theorem find_or_create_not_idempotent_on_blank_id:
  "getAllPages (getApplicationsList (service_of items_with_blank_id))
     = Some ([PageRequest 0 100], Inr items_with_blank_id)
   \<and> \<lparr>item_name = JStr ''Test'', item_id = JStr []\<rparr> \<in> set items_with_blank_id
   \<and> main_appId (service_of items_with_blank_id)
     = Some ([PageRequest 0 100, CreateRequest ''Test''], Inr (JStr ''id-new''))"
proof -
  have scan: "getAllPages (getApplicationsList (service_of items_with_blank_id))
     = Some ([PageRequest 0 100], Inr items_with_blank_id)"
    by (simp only: getApplicationsList_service_of scan_items_with_blank_id)
  have "filter (\<lambda>i. item_name i = JStr ''Test'') items_with_blank_id
          = [\<lparr>item_name = JStr ''Test'', item_id = JStr []\<rparr>]"
    by (simp add: items_with_blank_id_def)
  then have "findApplication (service_of items_with_blank_id) ''Test''
          = Some ([PageRequest 0 100], Inr (JStr []))"
    unfolding findApplication_eq
    by (simp add: findInAllPages_def scan)
  then have "main_appId (service_of items_with_blank_id)
     = Some ([PageRequest 0 100, CreateRequest ''Test''], Inr (JStr ''id-new''))"
    by (simp add: main_appId_def find_or_add_application_def addApplication_def service_of_def)
  moreover have "\<lparr>item_name = JStr ''Test'', item_id = JStr []\<rparr> \<in> set items_with_blank_id"
    by (simp add: items_with_blank_id_def)
  ultimately show ?thesis using scan by blast
qed

text \<open>
  Claim C7, amended. Against a stable collection, if the first listed application with
  exactly the given name carries a truthy identifier (a non-empty string), the
  find-or-create sequence returns that identifier and sends no creation request, on a
  second invocation as on any other.
\<close>

theorem find_or_create_idempotent:
  assumes "getAllPages (getApplicationsList svc) = Some (tr, Inr items)"
    and "items = pre @ x # post"
    and "\<forall>y\<in>set pre. item_name y \<noteq> JStr n"
    and "item_name x = JStr n"
    and "truthy (item_id x)"
  shows "find_or_add_application svc n description culture initialVersionId
           = Some (tr, Inr (item_id x))
       \<and> (\<forall>m. CreateRequest m \<notin> set tr)"
proof -
  have "findApplication svc n = Some (tr, Inr (item_id x))"
    unfolding findApplication_eq
    by (rule findInAllPages_first[where flt = "\<lambda>i. item_name i = JStr n", OF assms(1,2)])
      (use assms(3,4) in simp_all)
  with assms(5) have "find_or_add_application svc n description culture initialVersionId
           = Some (tr, Inr (item_id x))"
    by (simp add: find_or_add_application_def)
  moreover have "\<forall>m. CreateRequest m \<notin> set tr"
    using getAllPages_no_creation[OF assms(1)] by blast
  ultimately show ?thesis by blast
qed

theorem find_or_create_idempotent_witness:
  "main_appId (service_of items_without_test)
     = Some ([PageRequest 0 100, CreateRequest ''Test''], Inr (JStr ''id-new''))
   \<and> main_appId (service_of items_after_create)
     = Some ([PageRequest 0 100], Inr (JStr ''id-new''))
   \<and> CreateRequest ''Test'' \<notin> set [PageRequest 0 100]"
proof -
  have "filter (\<lambda>i. item_name i = JStr ''Test'') items_without_test = []"
    by (simp add: items_without_test_def)
  then have "findApplication (service_of items_without_test) ''Test''
          = Some ([PageRequest 0 100], Inr Undefined)"
    unfolding findApplication_eq
    by (simp add: findInAllPages_def getApplicationsList_service_of scan_items_without_test)
  then have first: "main_appId (service_of items_without_test)
     = Some ([PageRequest 0 100, CreateRequest ''Test''], Inr (JStr ''id-new''))"
    by (simp add: main_appId_def find_or_add_application_def addApplication_def service_of_def)
  have scan: "getAllPages (getApplicationsList (service_of items_after_create))
     = Some ([PageRequest 0 100], Inr items_after_create)"
    by (simp only: getApplicationsList_service_of scan_items_after_create)
  have "find_or_add_application (service_of items_after_create) ''Test''
            ''A test LUIS app created programmatically'' ''en-us'' ''0.1''
           = Some ([PageRequest 0 100],
                   Inr (item_id \<lparr>item_name = JStr ''Test'', item_id = JStr ''id-new''\<rparr>))
       \<and> (\<forall>m. CreateRequest m \<notin> set [PageRequest 0 100])"
    by (rule find_or_create_idempotent
        [OF scan, where pre = items_without_test and post = "[]"])
      (simp_all add: items_after_create_def items_without_test_def)
  then have second: "main_appId (service_of items_after_create)
     = Some ([PageRequest 0 100], Inr (JStr ''id-new''))"
    and none: "CreateRequest ''Test'' \<notin> set [PageRequest 0 100]"
    by (simp_all add: main_appId_def)
  from first second none show ?thesis by (intro conjI)
qed

text \<open>
  Claim C10. If the first item of the scanned collection that matches the requested name
  has an absent or otherwise falsy \<open>id\<close>, the find returns that falsy value, and the
  find-or-create sequence sends a creation request although an item of that name is
  listed.
\<close>

theorem falsy_id_is_treated_as_absent:
  assumes "getAllPages (getApplicationsList svc) = Some (tr, Inr items)"
    and "items = pre @ x # post"
    and "\<forall>y\<in>set pre. item_name y \<noteq> JStr n"
    and "item_name x = JStr n"
    and "\<not> truthy (item_id x)"
  shows "findInAllPages (getApplicationsList svc) (\<lambda>i. item_name i = JStr n)
           = Some (tr, Inr (item_id x))
       \<and> findApplication svc n = Some (tr, Inr (item_id x))
       \<and> find_or_add_application svc n description culture initialVersionId
           = Some (tr @ [CreateRequest n],
                   addApplication svc n description culture initialVersionId)
       \<and> x \<in> set items"
proof -
  have found: "findInAllPages (getApplicationsList svc) (\<lambda>i. item_name i = JStr n)
           = Some (tr, Inr (item_id x))"
    by (rule findInAllPages_first[where flt = "\<lambda>i. item_name i = JStr n", OF assms(1,2)])
      (use assms(3,4) in simp_all)
  then have app: "findApplication svc n = Some (tr, Inr (item_id x))"
    by (simp only: findApplication_eq)
  with assms(5) have "find_or_add_application svc n description culture initialVersionId
           = Some (tr @ [CreateRequest n],
                   addApplication svc n description culture initialVersionId)"
    by (simp add: find_or_add_application_def)
  moreover have "x \<in> set items"
    using assms(2) by simp
  ultimately show ?thesis using found app by blast
qed

theorem falsy_id_is_treated_as_absent_witness:
  "findApplication (service_of items_with_blank_id) ''Test''
     = Some ([PageRequest 0 100], Inr (JStr []))
   \<and> truthy (JStr []) = False
   \<and> main_appId (service_of items_with_blank_id)
     = Some ([PageRequest 0 100, CreateRequest ''Test''], Inr (JStr ''id-new''))"
proof -
  have scan: "getAllPages (getApplicationsList (service_of items_with_blank_id))
     = Some ([PageRequest 0 100], Inr items_with_blank_id)"
    by (simp only: getApplicationsList_service_of scan_items_with_blank_id)
  have "findInAllPages (getApplicationsList (service_of items_with_blank_id))
            (\<lambda>i. item_name i = JStr ''Test'')
           = Some ([PageRequest 0 100],
                   Inr (item_id \<lparr>item_name = JStr ''Test'', item_id = JStr []\<rparr>))
       \<and> findApplication (service_of items_with_blank_id) ''Test''
           = Some ([PageRequest 0 100],
                   Inr (item_id \<lparr>item_name = JStr ''Test'', item_id = JStr []\<rparr>))
       \<and> find_or_add_application (service_of items_with_blank_id) ''Test''
            ''A test LUIS app created programmatically'' ''en-us'' ''0.1''
           = Some ([PageRequest 0 100] @ [CreateRequest ''Test''],
                   addApplication (service_of items_with_blank_id) ''Test''
                     ''A test LUIS app created programmatically'' ''en-us'' ''0.1'')
       \<and> \<lparr>item_name = JStr ''Test'', item_id = JStr []\<rparr> \<in> set items_with_blank_id"
    by (rule falsy_id_is_treated_as_absent
        [OF scan, where pre = "[\<lparr>item_name = JStr ''Other'', item_id = JStr ''id-0''\<rparr>]"
           and post = "[]"])
      (simp_all add: items_with_blank_id_def)
  then show ?thesis
    by (simp add: main_appId_def addApplication_def service_of_def)
qed

end
